theory Spec2Isabelle
  imports Main "HOL-Library.Multiset"
begin

section \<open>The observer pattern of \<open>observer.py\<close>\<close>

text \<open>
  The program is one Python module: the abstract classes \<open>Subject\<close> and \<open>Observer\<close>, the
  class \<open>ConcreteSubject\<close> with its four methods, and the observer classes
  \<open>ConcreteObserverA\<close> and \<open>ConcreteObserverB\<close>. Every method is embedded as a function
  that takes the program state (\<open>world\<close>) and returns the outcome of the call together with
  the state it leaves behind; a raised exception is the outcome \<open>Inl e\<close>.
\<close>

subsection \<open>Values, exceptions and the program state\<close>

text \<open>
  Objects are compared by identity: no class of the module defines \<open>__eq__\<close>. A subject is
  therefore the number that identifies the instance, and an observer of one of the two
  concrete classes is the class together with such a number.
\<close>

type_synonym subject = nat

datatype observer = ConcreteObserverA nat | ConcreteObserverB nat

text \<open>The attribute \<open>state\<close> holds \<open>None\<close> or an integer.\<close>

datatype pyval = PyNone | PyInt int

text \<open>
  The exceptions the module can raise are the \<open>ValueError\<close> of \<open>list.remove\<close> and the
  \<open>TypeError\<close> of an ordering comparison with \<open>None\<close>; \<open>OtherError\<close> stands for whatever
  an \<open>update\<close> of a further \<open>Observer\<close> subclass raises.
\<close>

datatype exn = ValueError | TypeError | OtherError string

text \<open>
  \<open>_observers\<close> is bound once, in the class body (line 45), to one list object; no method
  assigns \<open>self._observers\<close>, so on every instance the attribute lookup falls through to
  that class attribute and \<open>append\<close> and \<open>remove\<close> mutate the one list in place. The state
  has a single field \<open>observers\<close> for it. \<open>state\<close> is bound in the class body to \<open>None\<close>;
  \<open>self.state = ...\<close> creates an instance attribute, so \<open>inst_state\<close> records it per
  instance, and a lookup on an instance without it yields the class attribute.

  \<open>stdout\<close> is the sequence of strings given to \<open>print\<close>. \<open>updates\<close> is not program data:
  it is the history of the calls \<open>observer.update(self)\<close>, each with the receiving
  observer, the subject passed and the value of the subject's \<open>state\<close> at the call.
\<close>

record 'o world =
  observers :: "'o list"
  inst_state :: "subject \<Rightarrow> int option"
  stdout :: "string list"
  updates :: "('o \<times> subject \<times> pyval) list"

type_synonym 'o outcome = "(exn + unit) \<times> 'o world"

definition cls_state :: pyval where
  "cls_state = PyNone"

definition get_state :: "subject \<Rightarrow> 'o world \<Rightarrow> pyval" where
  "get_state self w = (case inst_state w self of None \<Rightarrow> cls_state | Some n \<Rightarrow> PyInt n)"

definition set_state :: "subject \<Rightarrow> int \<Rightarrow> 'o world \<Rightarrow> 'o world" where
  "set_state self n w = w\<lparr>inst_state := (inst_state w)(self := Some n)\<rparr>"

definition print :: "string \<Rightarrow> 'o world \<Rightarrow> 'o world" where
  "print s w = w\<lparr>stdout := stdout w @ [s]\<rparr>"

text \<open>The state in which the module has been loaded and nothing has run yet.\<close>

definition init_world :: "'o world" where
  "init_world = \<lparr>observers = [], inst_state = (\<lambda>_. None), stdout = [], updates = []\<rparr>"

subsection \<open>Library operations the module calls\<close>

text \<open>
  \<open>list.remove(x)\<close> deletes the first item equal to \<open>x\<close> and raises \<open>ValueError\<close> when
  there is none; \<open>None\<close> is that failure.
\<close>

fun list_remove :: "'a \<Rightarrow> 'a list \<Rightarrow> 'a list option" where
  "list_remove x [] = None"
| "list_remove x (y # ys) =
     (if y = x then Some ys
      else (case list_remove x ys of None \<Rightarrow> None | Some zs \<Rightarrow> Some (y # zs)))"

text \<open>
  \<open>randrange(start, stop)\<close> returns an integer of \<open>range(start, stop)\<close> and raises
  \<open>ValueError\<close> on an empty range. Which integer is decided by the generator; its draw is
  the explicit argument \<open>draw\<close>, a natural number, and the integer returned is the draw
  reduced to the width of the range. The generator draws uniformly: among the draws below
  any multiple of the width, every integer of the range is returned equally often.
\<close>

definition randrange :: "int \<Rightarrow> int \<Rightarrow> nat \<Rightarrow> exn + int" where
  "randrange start stop draw =
     (if stop \<le> start then Inl ValueError
      else Inr (start + int (draw mod nat (stop - start))))"

text \<open>The comparisons \<open>v < n\<close> and \<open>v > n\<close> of a value with an integer.\<close>

definition py_lt :: "pyval \<Rightarrow> int \<Rightarrow> exn + bool" where
  "py_lt v n = (case v of PyNone \<Rightarrow> Inl TypeError | PyInt s \<Rightarrow> Inr (s < n))"

definition py_gt :: "pyval \<Rightarrow> int \<Rightarrow> exn + bool" where
  "py_gt v n = (case v of PyNone \<Rightarrow> Inl TypeError | PyInt s \<Rightarrow> Inr (s > n))"

text \<open>The text an f-string inserts for a value.\<close>

fun digits :: "nat \<Rightarrow> string" where
  "digits n =
     (if n < 10 then [char_of (48 + n)]
      else digits (n div 10) @ [char_of (48 + n mod 10)])"

declare digits.simps [simp del]

definition str :: "pyval \<Rightarrow> string" where
  "str v = (case v of
              PyNone \<Rightarrow> ''None''
            | PyInt n \<Rightarrow> (if n < 0 then CHR ''-'' # digits (nat (- n)) else digits (nat n)))"

subsection \<open>ConcreteSubject\<close>

definition attach :: "subject \<Rightarrow> 'o \<Rightarrow> 'o world \<Rightarrow> 'o outcome" where
  "attach self ob w =
     (let w1 = print ''\<newline>Subject: attach observer to the subject'' w
      in (Inr (), w1\<lparr>observers := observers w1 @ [ob]\<rparr>))"

definition detach :: "subject \<Rightarrow> 'o \<Rightarrow> 'o world \<Rightarrow> 'o outcome" where
  "detach self ob w =
     (let w1 = print ''\<newline>Subject: detach observer to the subject'' w
      in (case list_remove ob (observers w1) of
            None \<Rightarrow> (Inl ValueError, w1)
          | Some obs \<Rightarrow> (Inr (), w1\<lparr>observers := obs\<rparr>)))"

text \<open>
  \<open>notify\<close> runs \<open>for observer in self._observers: observer.update(self)\<close>. The list
  iterator keeps an index into the list object itself and compares it with the current
  length before every step, so the loop is a recursion on that index which reads the list
  from the state each time. \<open>update\<close> is an abstract method: the loop takes the method
  that the call dispatches to as the argument \<open>upd\<close>. An \<open>update\<close> of some other class may
  attach observers for ever, so the loop is a partial function, and \<open>None\<close> says that the
  call does not return.
\<close>

definition log_update :: "'o \<Rightarrow> subject \<Rightarrow> 'o world \<Rightarrow> 'o world" where
  "log_update ob self w = w\<lparr>updates := updates w @ [(ob, self, get_state self w)]\<rparr>"

partial_function (option) notify_loop ::
  "('o \<Rightarrow> subject \<Rightarrow> 'o world \<Rightarrow> 'o outcome) \<Rightarrow> nat \<Rightarrow> subject \<Rightarrow> 'o world
     \<Rightarrow> 'o outcome option" where
  "notify_loop upd i self w =
     (if i < length (observers w)
      then (case upd (observers w ! i) self (log_update (observers w ! i) self w) of
              (Inl e, w') \<Rightarrow> Some (Inl e, w')
            | (Inr u, w') \<Rightarrow> notify_loop upd (i + 1) self w')
      else Some (Inr (), w))"

definition notify ::
  "('o \<Rightarrow> subject \<Rightarrow> 'o world \<Rightarrow> 'o outcome) \<Rightarrow> subject \<Rightarrow> 'o world \<Rightarrow> 'o outcome option" where
  "notify upd self w = notify_loop upd 0 self (print ''\<newline>Subject: Notifying observers...'' w)"

definition do_some_business_logic ::
  "('o \<Rightarrow> subject \<Rightarrow> 'o world \<Rightarrow> 'o outcome) \<Rightarrow> subject \<Rightarrow> nat \<Rightarrow> 'o world
     \<Rightarrow> 'o outcome option" where
  "do_some_business_logic upd self draw w =
     (let w1 = print ''\<newline>Subject: I'm doing something important.'' w
      in (case randrange 0 10 draw of
            Inl e \<Rightarrow> Some (Inl e, w1)
          | Inr r \<Rightarrow>
              (let w2 = set_state self r w1;
                   w3 = print (''Subject: My state has just changed to: '' @ str (get_state self w2)) w2
               in notify upd self w3)))"

subsection \<open>The concrete observers\<close>

fun update :: "observer \<Rightarrow> subject \<Rightarrow> observer world \<Rightarrow> observer outcome" where
  "update (ConcreteObserverA k) subject w =
     (case py_lt (get_state subject w) 8 of
        Inl e \<Rightarrow> (Inl e, w)
      | Inr b \<Rightarrow>
          (if b then (Inr (), print ''\<newline>ConcreteObserverA: react to the event'' w)
           else (Inr (), w)))"
| "update (ConcreteObserverB k) subject w =
     (case py_gt (get_state subject w) 4 of
        Inl e \<Rightarrow> (Inl e, w)
      | Inr b \<Rightarrow>
          (if b then (Inr (), print ''\<newline>ConcreteObserverB: react to the event'' w)
           else (Inr (), w)))"

subsection \<open>Callers\<close>

text \<open>
  A caller of the subject's methods makes a sequence of calls. \<open>run\<close> makes them one after
  the other from a given state and collects the outcome of each; an exception ends the call
  that raised it, is caught by the caller and recorded as that call's outcome, and the next
  call starts from the state the failed call left. The argument of \<open>Business\<close> is the
  draw of the generator in that call.
\<close>

datatype 'o call = Attach subject 'o | Detach subject 'o | Notify subject | Business subject nat

fun exec_call ::
  "('o \<Rightarrow> subject \<Rightarrow> 'o world \<Rightarrow> 'o outcome) \<Rightarrow> 'o call \<Rightarrow> 'o world \<Rightarrow> 'o outcome option" where
  "exec_call upd (Attach self ob) w = Some (attach self ob w)"
| "exec_call upd (Detach self ob) w = Some (detach self ob w)"
| "exec_call upd (Notify self) w = notify upd self w"
| "exec_call upd (Business self draw) w = do_some_business_logic upd self draw w"

fun run ::
  "('o \<Rightarrow> subject \<Rightarrow> 'o world \<Rightarrow> 'o outcome) \<Rightarrow> 'o call list \<Rightarrow> 'o world
     \<Rightarrow> ((exn + unit) list \<times> 'o world) option" where
  "run upd [] w = Some ([], w)"
| "run upd (c # cs) w =
     (case exec_call upd c w of
        None \<Rightarrow> None
      | Some (r, w1) \<Rightarrow>
          (case run upd cs w1 of
             None \<Rightarrow> None
           | Some (rs, w2) \<Rightarrow> Some (r # rs, w2)))"

fun is_attach :: "'o call \<Rightarrow> bool" where
  "is_attach (Attach self ob) = True"
| "is_attach c = False"

fun is_detach :: "'o call \<Rightarrow> bool" where
  "is_detach (Detach self ob) = True"
| "is_detach c = False"

fun is_business_of :: "subject \<Rightarrow> 'o call \<Rightarrow> bool" where
  "is_business_of self (Business s draw) = (s = self)"
| "is_business_of self c = False"

fun succeeded :: "exn + unit \<Rightarrow> bool" where
  "succeeded (Inr u) = True"
| "succeeded (Inl e) = False"

text \<open>The number of \<open>attach\<close> calls, and of \<open>detach\<close> calls that returned normally.\<close>

definition attach_calls :: "'o call list \<Rightarrow> nat" where
  "attach_calls cs = length (filter is_attach cs)"

definition successful_detach_calls :: "'o call list \<Rightarrow> (exn + unit) list \<Rightarrow> nat" where
  "successful_detach_calls cs rs =
     length (filter (\<lambda>(c, r). is_detach c \<and> succeeded r) (zip cs rs))"

subsection \<open>The loop of notify, one entry at a time\<close>

text \<open>
  \<open>loop_state upd k self w\<close> is the state in which the loop of \<open>notify\<close>, started in \<open>w\<close>,
  arrives at entry \<open>k\<close> of the list: the calls for the entries \<open>0\<close> to \<open>k - 1\<close> have been
  made, in this order, and each has returned normally. It is \<open>None\<close> when the loop does
  not get that far, because the list ended or a call raised.
\<close>

fun loop_state ::
  "('o \<Rightarrow> subject \<Rightarrow> 'o world \<Rightarrow> 'o outcome) \<Rightarrow> nat \<Rightarrow> subject \<Rightarrow> 'o world \<Rightarrow> 'o world option" where
  "loop_state upd 0 self w = Some w"
| "loop_state upd (Suc k) self w =
     (case loop_state upd k self w of
        None \<Rightarrow> None
      | Some v \<Rightarrow>
          (if k < length (observers v)
           then (case upd (observers v ! k) self (log_update (observers v ! k) self v) of
                   (Inl e, v') \<Rightarrow> None
                 | (Inr u, v') \<Rightarrow> Some v')
           else None))"

subsection \<open>Observer classes outside the module\<close>

text \<open>
  \<open>Observer\<close> is an abstract class, and \<open>attach\<close> takes an instance of any subclass. Four
  subclasses that are not in the module serve as inputs: the \<open>update\<close> of a \<open>Leaver\<close> calls
  \<open>subject.detach(self)\<close>, that of a \<open>Talker\<close> prints a line, that of a \<open>Faulty\<close> raises,
  and that of a \<open>Setter\<close> assigns \<open>subject.state = 42\<close>.
\<close>

datatype probe = Leaver nat | Talker nat | Faulty nat | Setter nat

fun probe_update :: "probe \<Rightarrow> subject \<Rightarrow> probe world \<Rightarrow> probe outcome" where
  "probe_update (Leaver k) subject w = detach subject (Leaver k) w"
| "probe_update (Talker k) subject w = (Inr (), print ''Talker: updated'' w)"
| "probe_update (Faulty k) subject w = (Inl (OtherError ''Faulty''), w)"
| "probe_update (Setter k) subject w = (Inr (), set_state subject 42 w)"

section \<open>Auxiliary facts\<close>

subsection \<open>Removal from a list\<close>

lemma list_remove_absent: "x \<notin> set xs \<Longrightarrow> list_remove x xs = None"
  by (induction xs) auto

lemma list_remove_present: "x \<in> set xs \<Longrightarrow> list_remove x xs = Some (remove1 x xs)"
  by (induction xs) auto

lemma list_remove_length: "list_remove x xs = Some ys \<Longrightarrow> length xs = Suc (length ys)"
  by (induction xs arbitrary: ys) (auto split: if_splits option.splits)


subsection \<open>Reading the state\<close>

lemma randrange_0_10: "randrange 0 10 draw = Inr (int (draw mod 10))"
  by (simp add: randrange_def)

text \<open>Every integer of \<open>range(0, 10)\<close> is the result for some draw, and nothing else is.\<close>

lemma randrange_0_10_values: "range (randrange 0 10) = Inr ` {0..<10}"
proof (rule set_eqI, rule iffI)
  fix x
  assume "x \<in> range (randrange 0 10)"
  then obtain draw where "x = Inr (int (draw mod 10))"
    by (auto simp: randrange_0_10)
  moreover have "int (draw mod 10) \<in> {0..<10}" by simp
  ultimately show "x \<in> Inr ` {0..<10}" by blast
next
  fix x :: "exn + int"
  assume "x \<in> Inr ` {0..<10}"
  then obtain r :: int where r: "x = Inr r" "0 \<le> r" "r < 10" by auto
  then have "randrange 0 10 (nat r) = x"
    by (simp add: randrange_0_10)
  then show "x \<in> range (randrange 0 10)" by (metis rangeI)
qed

lemma get_state_print [simp]: "get_state self (print s w) = get_state self w"
  by (simp add: get_state_def print_def)

lemma get_state_set_state [simp]: "get_state self (set_state self n w) = PyInt n"
  by (simp add: get_state_def set_state_def)

lemma get_state_log_update [simp]: "get_state self (log_update ob s w) = get_state self w"
  by (simp add: get_state_def log_update_def)

subsection \<open>What an update of the two concrete classes touches\<close>

lemma update_frame:
  "observers (snd (update ob self w)) = observers w"
  "inst_state (snd (update ob self w)) = inst_state w"
  "updates (snd (update ob self w)) = updates w"
  by (cases ob; simp add: print_def split: sum.splits)+

lemma update_stdout: "\<exists>out. stdout (snd (update ob self w)) = stdout w @ out"
  by (cases ob; simp add: print_def split: sum.splits)

lemma update_unset:
  "get_state self w = PyNone \<Longrightarrow> update ob self w = (Inl TypeError, w)"
  by (cases ob) (simp_all add: py_lt_def py_gt_def)

lemma update_set:
  "get_state self w = PyInt s \<Longrightarrow> fst (update ob self w) = Inr ()"
  by (cases ob) (simp_all add: py_lt_def py_gt_def)

subsection \<open>The loop of notify over the concrete classes\<close>

text \<open>
  With the state set, no \<open>update\<close> raises and none changes the list, so the loop started at
  index \<open>i\<close> returns after one call for each entry from \<open>i\<close> on, in list order. The
  induction is on the number of entries still to visit.
\<close>

lemma notify_loop_set:
  "get_state self w = PyInt s \<Longrightarrow>
     \<exists>w'. notify_loop update i self w = Some (Inr (), w')
        \<and> observers w' = observers w
        \<and> inst_state w' = inst_state w
        \<and> updates w' = updates w @ map (\<lambda>ob. (ob, self, PyInt s)) (drop i (observers w))
        \<and> (\<exists>out. stdout w' = stdout w @ out)"
proof (induction "length (observers w) - i" arbitrary: i w)
  case 0
  then show ?case by (subst notify_loop.simps) simp
next
  case (Suc n)
  let ?ob = "observers w ! i"
  let ?w1 = "log_update ?ob self w"
  obtain r w2 where u: "update ?ob self ?w1 = (r, w2)" by (cases "update ?ob self ?w1")
  from Suc.hyps(2) have i: "i < length (observers w)" by simp
  have s1: "get_state self ?w1 = PyInt s" using Suc.prems by simp
  have r: "r = Inr ()" using update_set [OF s1, of ?ob] u by simp
  have fr: "observers w2 = observers w" "inst_state w2 = inst_state w"
      "updates w2 = updates w @ [(?ob, self, PyInt s)]"
    using update_frame [of ?ob self ?w1] u Suc.prems by (simp_all add: log_update_def)
  obtain out1 where out1: "stdout w2 = stdout w @ out1"
    using update_stdout [of ?ob self ?w1] u by (auto simp: log_update_def)
  have s2: "get_state self w2 = PyInt s" using Suc.prems fr(2) by (simp add: get_state_def)
  have n: "n = length (observers w2) - (i + 1)" using Suc.hyps(2) fr(1) by simp
  from Suc.hyps(1) [OF n s2] obtain w' out2 where w':
    "notify_loop update (i + 1) self w2 = Some (Inr (), w')"
    "observers w' = observers w2" "inst_state w' = inst_state w2"
    "updates w' = updates w2 @ map (\<lambda>ob. (ob, self, PyInt s)) (drop (i + 1) (observers w2))"
    "stdout w' = stdout w2 @ out2"
    by blast
  have w1': "notify_loop update (Suc i) self w2 = Some (Inr (), w')"
    using w'(1) by simp
  have "notify_loop update i self w = Some (Inr (), w')"
    by (subst notify_loop.simps) (simp add: i u r w1')
  moreover have "drop i (observers w) = ?ob # drop (i + 1) (observers w)"
    using i by (simp add: Cons_nth_drop_Suc)
  moreover have "stdout w' = stdout w @ (out1 @ out2)"
    using w'(5) out1 by simp
  ultimately show ?case using w'(2,3,4) fr by simp
qed

lemma notify_loop_unset:
  "get_state self w = PyNone \<Longrightarrow> i < length (observers w) \<Longrightarrow>
     notify_loop update i self w = Some (Inl TypeError, log_update (observers w ! i) self w)"
  by (subst notify_loop.simps) (simp add: update_unset)

lemma notify_loop_done:
  "\<not> i < length (observers w) \<Longrightarrow> notify_loop upd i self w = Some (Inr (), w)"
  by (subst notify_loop.simps) simp

lemma notify_set:
  "get_state self w = PyInt s \<Longrightarrow>
     \<exists>w'. notify update self w = Some (Inr (), w')
        \<and> observers w' = observers w
        \<and> inst_state w' = inst_state w
        \<and> updates w' = updates w @ map (\<lambda>ob. (ob, self, PyInt s)) (observers w)
        \<and> (\<exists>out. stdout w' = stdout w @ [''\<newline>Subject: Notifying observers...''] @ out)"
proof -
  assume s: "get_state self w = PyInt s"
  let ?w1 = "print ''\<newline>Subject: Notifying observers...'' w"
  have "get_state self ?w1 = PyInt s" using s by simp
  from notify_loop_set [OF this, of 0] show ?thesis
    by (simp add: notify_def) (simp add: print_def)
qed

lemma notify_unset:
  "get_state self w = PyNone \<Longrightarrow> observers w \<noteq> [] \<Longrightarrow>
     notify update self w
       = Some (Inl TypeError,
               log_update (hd (observers w)) self (print ''\<newline>Subject: Notifying observers...'' w))"
proof -
  assume s: "get_state self w = PyNone" and ne: "observers w \<noteq> []"
  let ?w1 = "print ''\<newline>Subject: Notifying observers...'' w"
  have o: "observers ?w1 = observers w" by (simp add: print_def)
  have "get_state self ?w1 = PyNone" using s by simp
  moreover have "0 < length (observers ?w1)" using ne o by simp
  ultimately have "notify_loop update 0 self ?w1
      = Some (Inl TypeError, log_update (observers ?w1 ! 0) self ?w1)"
    by (rule notify_loop_unset)
  then show ?thesis using ne o by (simp add: notify_def hd_conv_nth)
qed

lemma notify_returns:
  "\<exists>r w'. notify update self w = Some (r, w')
      \<and> observers w' = observers w \<and> inst_state w' = inst_state w"
proof (cases "get_state self w")
  case PyNone
  show ?thesis
  proof (cases "observers w = []")
    case True
    then have "notify update self w = Some (Inr (), print ''\<newline>Subject: Notifying observers...'' w)"
      by (simp add: notify_def notify_loop_done print_def)
    then show ?thesis by (simp add: print_def)
  next
    case False
    from notify_unset [OF PyNone False] show ?thesis
      by (simp add: log_update_def print_def)
  qed
next
  case (PyInt s)
  from notify_set [OF PyInt] show ?thesis by blast
qed

lemma business_logic_effect:
  "\<exists>w'. do_some_business_logic update self draw w = Some (Inr (), w')
      \<and> inst_state w' = (inst_state w)(self := Some (int (draw mod 10)))
      \<and> observers w' = observers w
      \<and> updates w' = updates w @ map (\<lambda>ob. (ob, self, PyInt (int (draw mod 10)))) (observers w)
      \<and> (\<exists>out. stdout w'
                  = stdout w
                    @ [''\<newline>Subject: I'm doing something important.'',
                       ''Subject: My state has just changed to: '' @ str (PyInt (int (draw mod 10))),
                       ''\<newline>Subject: Notifying observers...'']
                    @ out)"
proof -
  let ?r = "int (draw mod 10)"
  let ?w1 = "print ''\<newline>Subject: I'm doing something important.'' w"
  let ?w2 = "set_state self ?r ?w1"
  let ?w3 = "print (''Subject: My state has just changed to: '' @ str (get_state self ?w2)) ?w2"
  have s3: "get_state self ?w3 = PyInt ?r" by simp
  from notify_set [OF s3] obtain w' out where w':
    "notify update self ?w3 = Some (Inr (), w')" "observers w' = observers ?w3"
    "inst_state w' = inst_state ?w3"
    "updates w' = updates ?w3 @ map (\<lambda>ob. (ob, self, PyInt ?r)) (observers ?w3)"
    "stdout w' = stdout ?w3 @ [''\<newline>Subject: Notifying observers...''] @ out"
    by blast
  have run: "do_some_business_logic update self draw w = Some (Inr (), w')"
    using w'(1) by (simp add: do_some_business_logic_def randrange_0_10 Let_def)
  have st: "inst_state w' = (inst_state w)(self := Some ?r)"
    using w'(3) by (simp add: set_state_def print_def)
  have ob: "observers w' = observers w"
    using w'(2) by (simp add: set_state_def print_def)
  have up: "updates w' = updates w @ map (\<lambda>ob. (ob, self, PyInt ?r)) (observers w)"
    using w'(4) by (simp add: set_state_def print_def)
  have "stdout w' = stdout w
          @ [''\<newline>Subject: I'm doing something important.'',
             ''Subject: My state has just changed to: '' @ str (PyInt ?r),
             ''\<newline>Subject: Notifying observers...'']
          @ out"
    using w'(5) by (simp add: print_def) (simp add: set_state_def)
  with run st ob up show ?thesis by blast
qed

subsection \<open>The loop of notify over observers of any class\<close>

text \<open>
  The loop arrives at entry \<open>k\<close> in the state \<open>loop_state\<close> gives, and goes on from there.
\<close>

lemma loop_state_notify_loop:
  "loop_state upd k self w = Some v \<Longrightarrow> notify_loop upd 0 self w = notify_loop upd k self v"
proof (induction k arbitrary: v)
  case 0
  then show ?case by simp
next
  case (Suc k)
  from Suc.prems obtain v0 where v0: "loop_state upd k self w = Some v0"
    by (auto split: option.splits)
  with Suc.prems have k: "k < length (observers v0)"
    by (auto split: if_splits)
  from Suc.prems v0 k obtain u where
    u: "upd (observers v0 ! k) self (log_update (observers v0 ! k) self v0) = (Inr u, v)"
    by (auto split: prod.splits sum.splits)
  have "notify_loop upd k self v0 = notify_loop upd (Suc k) self v"
    by (subst notify_loop.simps) (simp add: k u)
  with Suc.IH [OF v0] show ?case by simp
qed

lemma notify_loop_prefix:
  assumes P: "\<And>p v. p \<in> set pre \<Longrightarrow> get_state self v \<in> C \<Longrightarrow>
                fst (upd p self v) = Inr ()
                \<and> observers (snd (upd p self v)) = observers v
                \<and> get_state self (snd (upd p self v)) \<in> C"
  shows "get_state self v \<in> C \<Longrightarrow> drop i (observers v) = pre @ rest \<Longrightarrow>
     notify_loop upd i self v
       = notify_loop upd (i + length pre) self
           (foldl (\<lambda>v p. snd (upd p self (log_update p self v))) v pre)
     \<and> observers (foldl (\<lambda>v p. snd (upd p self (log_update p self v))) v pre) = observers v
     \<and> get_state self (foldl (\<lambda>v p. snd (upd p self (log_update p self v))) v pre) \<in> C"
  using P
proof (induction pre arbitrary: i v)
  case Nil
  then show ?case by simp
next
  case (Cons p pre)
  let ?step = "\<lambda>v p. snd (upd p self (log_update p self v))"
  let ?v1 = "?step v p"
  from Cons.prems(2) have i: "i < length (observers v)"
    by (cases "i < length (observers v)") auto
  from Cons.prems(2) i have p: "observers v ! i = p"
    by (metis Cons_nth_drop_Suc append_Cons list.inject)
  from Cons.prems(2) i have d: "drop (Suc i) (observers v) = pre @ rest"
    by (metis Cons_nth_drop_Suc append_Cons list.inject)
  have sl: "get_state self (log_update p self v) \<in> C" using Cons.prems(1) by simp
  from Cons.prems(3) [of p "log_update p self v"] sl
  have r: "fst (upd p self (log_update p self v)) = Inr ()"
    and o: "observers ?v1 = observers v"
    and s: "get_state self ?v1 \<in> C"
    by (simp_all add: log_update_def)
  obtain v1 where u: "upd p self (log_update p self v) = (Inr (), v1)"
    using r by (cases "upd p self (log_update p self v)") simp
  have v1: "?v1 = v1" using u by simp
  have "notify_loop upd i self v = notify_loop upd (Suc i) self v1"
    by (subst notify_loop.simps) (simp add: i p u)
  then have step: "notify_loop upd i self v = notify_loop upd (Suc i) self ?v1"
    unfolding v1 .
  have P': "\<And>q v. q \<in> set pre \<Longrightarrow> get_state self v \<in> C \<Longrightarrow>
                fst (upd q self v) = Inr ()
                \<and> observers (snd (upd q self v)) = observers v
                \<and> get_state self (snd (upd q self v)) \<in> C"
    using Cons.prems(3) by simp
  from d o have d1: "drop (Suc i) (observers ?v1) = pre @ rest" by simp
  from Cons.IH [OF s d1 P'] step o show ?case by simp
qed

text \<open>
  When the updates of the observers return normally, leave the list alone and keep the
  subject's state within a set \<open>C\<close> of values, \<open>notify\<close> is the composition of the update
  calls in list order.
\<close>

lemma update_well_behaved:
  "get_state self v \<noteq> PyNone \<Longrightarrow>
     fst (update p self v) = Inr ()
     \<and> observers (snd (update p self v)) = observers v
     \<and> get_state self (snd (update p self v)) = get_state self v"
proof -
  assume "get_state self v \<noteq> PyNone"
  then obtain s where s: "get_state self v = PyInt s" by (cases "get_state self v") auto
  from update_set [OF s, of p] update_frame [of p self v] show ?thesis
    by (simp add: get_state_def)
qed

lemma notify_well_behaved:
  fixes upd :: "'o \<Rightarrow> subject \<Rightarrow> 'o world \<Rightarrow> 'o outcome" and w :: "'o world"
  assumes H: "\<forall>p \<in> set (observers w). \<forall>v. get_state self v \<in> C \<longrightarrow>
                fst (upd p self v) = Inr ()
                \<and> observers (snd (upd p self v)) = observers v
                \<and> get_state self (snd (upd p self v)) \<in> C"
    and S: "get_state self w \<in> C"
  shows "notify upd self w
           = Some (Inr (), foldl (\<lambda>v p. snd (upd p self (log_update p self v)))
                             (print ''\<newline>Subject: Notifying observers...'' w) (observers w))
         \<and> observers (foldl (\<lambda>v p. snd (upd p self (log_update p self v)))
                             (print ''\<newline>Subject: Notifying observers...'' w) (observers w))
             = observers w
         \<and> (\<forall>k. get_state self (foldl (\<lambda>v p. snd (upd p self (log_update p self v)))
                             (print ''\<newline>Subject: Notifying observers...'' w)
                             (take k (observers w))) \<in> C)"
proof -
  let ?step = "\<lambda>v p. snd (upd p self (log_update p self v))"
  let ?w0 = "print ''\<newline>Subject: Notifying observers...'' w"
  have o0: "observers ?w0 = observers w" by (simp add: print_def)
  have s0: "get_state self ?w0 \<in> C" using S by simp
  have P': "\<And>k p (v :: 'o world). p \<in> set (take k (observers w)) \<Longrightarrow> get_state self v \<in> C \<Longrightarrow>
                fst (upd p self v) = Inr ()
                \<and> observers (snd (upd p self v)) = observers v
                \<and> get_state self (snd (upd p self v)) \<in> C"
  proof -
    fix k p and v :: "'o world"
    assume "p \<in> set (take k (observers w))" and v: "get_state self v \<in> C"
    then have "p \<in> set (observers w)" by (auto dest: in_set_takeD)
    with H v show "fst (upd p self v) = Inr ()
                \<and> observers (snd (upd p self v)) = observers v
                \<and> get_state self (snd (upd p self v)) \<in> C" by simp
  qed
  have pre: "\<And>k. notify_loop upd 0 self ?w0
                 = notify_loop upd (0 + length (take k (observers w))) self
                     (foldl ?step ?w0 (take k (observers w)))
               \<and> observers (foldl ?step ?w0 (take k (observers w))) = observers ?w0
               \<and> get_state self (foldl ?step ?w0 (take k (observers w))) \<in> C"
  proof -
    fix k
    have d: "drop 0 (observers ?w0) = take k (observers w) @ drop k (observers w)"
      using o0 by simp
    show "notify_loop upd 0 self ?w0
                 = notify_loop upd (0 + length (take k (observers w))) self
                     (foldl ?step ?w0 (take k (observers w)))
               \<and> observers (foldl ?step ?w0 (take k (observers w))) = observers ?w0
               \<and> get_state self (foldl ?step ?w0 (take k (observers w))) \<in> C"
    proof (rule notify_loop_prefix [where C = C and rest = "drop k (observers w)"])
      show "get_state self ?w0 \<in> C" by (rule s0)
      show "drop 0 (observers ?w0) = take k (observers w) @ drop k (observers w)" by (rule d)
      fix p and v :: "'o world"
      assume "p \<in> set (take k (observers w))" and "get_state self v \<in> C"
      then show "fst (upd p self v) = Inr ()
                \<and> observers (snd (upd p self v)) = observers v
                \<and> get_state self (snd (upd p self v)) \<in> C" by (rule P')
    qed
  qed
  from pre [of "length (observers w)"]
  have a: "notify_loop upd 0 self ?w0
             = notify_loop upd (length (observers w)) self (foldl ?step ?w0 (observers w))"
    and b: "observers (foldl ?step ?w0 (observers w)) = observers w"
    using o0 by simp_all
  have "notify_loop upd (length (observers w)) self (foldl ?step ?w0 (observers w))
          = Some (Inr (), foldl ?step ?w0 (observers w))"
    by (rule notify_loop_done) (simp add: b)
  with a have "notify upd self w = Some (Inr (), foldl ?step ?w0 (observers w))"
    by (simp add: notify_def)
  moreover have "\<forall>k. get_state self (foldl ?step ?w0 (take k (observers w))) \<in> C"
    using pre by blast
  ultimately show ?thesis using b by blast
qed

lemma business_logic_well_behaved:
  fixes upd :: "'o \<Rightarrow> subject \<Rightarrow> 'o world \<Rightarrow> 'o outcome" and w :: "'o world"
  assumes H: "\<forall>p \<in> set (observers w). \<forall>v. get_state self v \<noteq> PyNone \<longrightarrow>
                fst (upd p self v) = Inr ()
                \<and> observers (snd (upd p self v)) = observers v
                \<and> get_state self (snd (upd p self v)) = get_state self v"
  shows "do_some_business_logic upd self draw w
           = Some (Inr (),
               foldl (\<lambda>v p. snd (upd p self (log_update p self v)))
                 (print ''\<newline>Subject: Notifying observers...''
                   (print (''Subject: My state has just changed to: '' @ str (PyInt (int (draw mod 10))))
                     (set_state self (int (draw mod 10))
                       (print ''\<newline>Subject: I'm doing something important.'' w))))
                 (observers w))
         \<and> observers (foldl (\<lambda>v p. snd (upd p self (log_update p self v)))
                 (print ''\<newline>Subject: Notifying observers...''
                   (print (''Subject: My state has just changed to: '' @ str (PyInt (int (draw mod 10))))
                     (set_state self (int (draw mod 10))
                       (print ''\<newline>Subject: I'm doing something important.'' w))))
                 (observers w)) = observers w
         \<and> (\<forall>k. get_state self (foldl (\<lambda>v p. snd (upd p self (log_update p self v)))
                 (print ''\<newline>Subject: Notifying observers...''
                   (print (''Subject: My state has just changed to: '' @ str (PyInt (int (draw mod 10))))
                     (set_state self (int (draw mod 10))
                       (print ''\<newline>Subject: I'm doing something important.'' w))))
                 (take k (observers w))) = PyInt (int (draw mod 10)))"
proof -
  let ?r = "int (draw mod 10)"
  let ?w3 = "print (''Subject: My state has just changed to: '' @ str (PyInt ?r))
               (set_state self ?r (print ''\<newline>Subject: I'm doing something important.'' w))"
  have o3: "observers ?w3 = observers w" by (simp add: print_def set_state_def)
  have s3: "get_state self ?w3 = PyInt ?r" by simp
  have H3: "\<forall>p \<in> set (observers ?w3). \<forall>v. get_state self v \<in> {PyInt ?r} \<longrightarrow>
                fst (upd p self v) = Inr ()
                \<and> observers (snd (upd p self v)) = observers v
                \<and> get_state self (snd (upd p self v)) \<in> {PyInt ?r}"
    unfolding o3 using H by simp
  have s3': "get_state self ?w3 \<in> {PyInt ?r}" using s3 by simp
  have run: "do_some_business_logic upd self draw w = notify upd self ?w3"
    by (simp add: do_some_business_logic_def randrange_0_10 Let_def)
  from notify_well_behaved [where upd = upd and self = self and w = ?w3 and C = "{PyInt ?r}", OF H3 s3']
  show ?thesis
    unfolding run o3 by simp
qed

subsection \<open>The draws of the generator\<close>

lemma card_residue:
  "k < 10 \<Longrightarrow> card {d::nat. d < 10 * n \<and> d mod 10 = k} = n"
proof -
  assume k: "k < 10"
  have "{d::nat. d < 10 * n \<and> d mod 10 = k} = (\<lambda>j. 10 * j + k) ` {..<n}"
  proof (rule set_eqI, rule iffI)
    fix d assume "d \<in> {d::nat. d < 10 * n \<and> d mod 10 = k}"
    then have d: "d < 10 * n" "d mod 10 = k" by simp_all
    have "d = 10 * (d div 10) + k" using d(2) mult_div_mod_eq [of 10 d] by simp
    moreover have "d div 10 < n" using d(1) by (simp add: less_mult_imp_div_less ac_simps)
    ultimately show "d \<in> (\<lambda>j. 10 * j + k) ` {..<n}" by blast
  next
    fix d assume "d \<in> (\<lambda>j. 10 * j + k) ` {..<n}"
    then obtain j where j: "j < n" "d = 10 * j + k" by auto
    have "d < 10 * n" using j k by arith
    moreover have "d mod 10 = k" using j(2) k by simp
    ultimately show "d \<in> {d::nat. d < 10 * n \<and> d mod 10 = k}" by simp
  qed
  moreover have "inj_on (\<lambda>j. 10 * j + k) {..<n}" by (simp add: inj_on_def)
  ultimately show ?thesis by (simp add: card_image)
qed

lemma randrange_uniform:
  "0 \<le> r \<Longrightarrow> r < 10 \<Longrightarrow> card {d. d < 10 * n \<and> randrange 0 10 d = Inr r} = n"
proof -
  assume r: "0 \<le> r" "r < 10"
  have "\<And>d. (randrange 0 10 d = Inr r) = (d mod 10 = nat r)"
    using r by (auto simp: randrange_0_10)
  then have "{d. d < 10 * n \<and> randrange 0 10 d = Inr r} = {d. d < 10 * n \<and> d mod 10 = nat r}"
    by simp
  moreover have "nat r < 10" using r by simp
  ultimately show ?thesis by (simp add: card_residue)
qed

subsection \<open>Sequences of calls\<close>

lemma run_registration:
  "list_all (\<lambda>c. is_attach c \<or> is_detach c) cs \<Longrightarrow>
     \<exists>rs w'. run upd cs w = Some (rs, w') \<and> length rs = length cs
       \<and> length (observers w') + successful_detach_calls cs rs
           = length (observers w) + attach_calls cs"
proof (induction cs arbitrary: w)
  case Nil
  then show ?case by (simp add: successful_detach_calls_def attach_calls_def)
next
  case (Cons c cs)
  from Cons.prems have rest: "list_all (\<lambda>c. is_attach c \<or> is_detach c) cs" by simp
  show ?case
  proof (cases c)
    case (Attach self ob)
    obtain w1 where a: "attach self ob w = (Inr (), w1)"
      and o1: "observers w1 = observers w @ [ob]"
      by (simp add: attach_def print_def Let_def)
    from Cons.IH [OF rest, of w1] obtain rs w' where r:
      "run upd cs w1 = Some (rs, w')" "length rs = length cs"
      "length (observers w') + successful_detach_calls cs rs
         = length (observers w1) + attach_calls cs" by blast
    have "run upd (c # cs) w = Some (Inr () # rs, w')"
      using Attach a r(1) by simp
    moreover have "length (Inr () # rs) = length (c # cs)" using r(2) by simp
    moreover have "length (observers w') + successful_detach_calls (c # cs) (Inr () # rs)
        = length (observers w) + attach_calls (c # cs)"
      using r(3) Attach o1
      by (simp add: successful_detach_calls_def attach_calls_def)
    ultimately show ?thesis by blast
  next
    case (Detach self ob)
    obtain r1 w1 where d: "detach self ob w = (r1, w1)" by (cases "detach self ob w")
    from Cons.IH [OF rest, of w1] obtain rs w' where r:
      "run upd cs w1 = Some (rs, w')" "length rs = length cs"
      "length (observers w') + successful_detach_calls cs rs
         = length (observers w1) + attach_calls cs" by blast
    have len: "length (observers w1) + (if succeeded r1 then 1 else 0) = length (observers w)"
      using d
      by (auto simp: detach_def print_def Let_def split: option.splits dest: list_remove_length)
    have "run upd (c # cs) w = Some (r1 # rs, w')"
      using Detach d r(1) by simp
    moreover have "length (r1 # rs) = length (c # cs)" using r(2) by simp
    moreover have "length (observers w') + successful_detach_calls (c # cs) (r1 # rs)
        = length (observers w) + attach_calls (c # cs)"
      using r(3) Detach len
      by (simp add: successful_detach_calls_def attach_calls_def split: if_splits)
    ultimately show ?thesis by blast
  next
    case (Notify self)
    with Cons.prems show ?thesis by simp
  next
    case (Business self draw)
    with Cons.prems show ?thesis by simp
  qed
qed

lemma exec_call_returns:
  "\<exists>r w'. exec_call update c w = Some (r, w')
      \<and> (\<not> is_business_of self c \<longrightarrow> inst_state w' self = inst_state w self)"
proof (cases c)
  case (Attach s ob)
  then show ?thesis by (simp add: attach_def print_def Let_def)
next
  case (Detach s ob)
  then show ?thesis by (simp add: detach_def print_def Let_def split: option.splits)
next
  case (Notify s)
  with notify_returns [of s w] show ?thesis by auto
next
  case (Business s draw)
  from business_logic_effect [of s draw w] obtain w' where
    b: "do_some_business_logic update s draw w = Some (Inr (), w')"
      "inst_state w' = (inst_state w)(s := Some (int (draw mod 10)))" by blast
  then show ?thesis using Business by auto
qed

lemma run_returns:
  "\<not> list_ex (is_business_of self) cs \<Longrightarrow>
     \<exists>rs w'. run update cs w = Some (rs, w') \<and> inst_state w' self = inst_state w self"
proof (induction cs arbitrary: w)
  case Nil
  then show ?case by simp
next
  case (Cons c cs)
  from Cons.prems have c: "\<not> is_business_of self c"
    and cs: "\<not> list_ex (is_business_of self) cs"
    by simp_all
  from exec_call_returns [of c w self] c obtain r w1 where
    e: "exec_call update c w = Some (r, w1)" "inst_state w1 self = inst_state w self" by blast
  from Cons.IH [OF cs, of w1] obtain rs w' where
    r: "run update cs w1 = Some (rs, w')" "inst_state w' self = inst_state w1 self" by blast
  have "run update (c # cs) w = Some (r # rs, w')" using e(1) r(1) by simp
  with e(2) r(2) show ?case by simp
qed

section \<open>The claims\<close>

subsection \<open>Business logic: state first, then the notifications\<close>

text \<open>
  C1, as stated: for every list of attached observers, after \<open>do_some_business_logic\<close> the
  state is an integer of \<open>[0, 10)\<close> and the \<open>update\<close> of every attached observer has been
  called. Three lists of two observers, each from the freshly loaded module with the draw
  3, show that it depends on what the updates do:
  \<^item> a \<open>Leaver\<close>, then a \<open>Talker\<close>: the \<open>update\<close> of the \<open>Leaver\<close> detaches it, the \<open>Talker\<close>
    moves to entry 0, the loop goes on to entry 1 and ends. The call returns normally and
    the \<open>update\<close> of the attached \<open>Talker\<close> has not been called: its line is not printed;
  \<^item> a \<open>Faulty\<close>, then a \<open>Talker\<close>: the \<open>update\<close> of the \<open>Faulty\<close> raises, the call ends with
    its exception, and the \<open>update\<close> of the \<open>Talker\<close> has not been called;
  \<^item> a \<open>Setter\<close>, then a \<open>Talker\<close>: both are called, the \<open>Talker\<close> sees the state 42, and
    the state afterwards is 42.
\<close>

theorem do_some_business_logic_notifies_counterexample:
  "observers (snd (attach 0 (Talker 2) (snd (attach 0 (Leaver 1) init_world))))
     = [Leaver 1, Talker 2]
   \<and> do_some_business_logic probe_update 0 3
       (snd (attach 0 (Talker 2) (snd (attach 0 (Leaver 1) init_world))))
     = Some (Inr (),
         init_world
           \<lparr>observers := [Talker 2],
            inst_state := (inst_state init_world)(0 := Some 3),
            stdout := [''\<newline>Subject: attach observer to the subject'',
                       ''\<newline>Subject: attach observer to the subject'',
                       ''\<newline>Subject: I'm doing something important.'',
                       ''Subject: My state has just changed to: '' @ str (PyInt 3),
                       ''\<newline>Subject: Notifying observers...'',
                       ''\<newline>Subject: detach observer to the subject''],
            updates := [(Leaver 1, 0, PyInt 3)]\<rparr>)
   \<and> do_some_business_logic probe_update 0 3
       (snd (attach 0 (Talker 2) (snd (attach 0 (Faulty 1) init_world))))
     = Some (Inl (OtherError ''Faulty''),
         init_world
           \<lparr>observers := [Faulty 1, Talker 2],
            inst_state := (inst_state init_world)(0 := Some 3),
            stdout := [''\<newline>Subject: attach observer to the subject'',
                       ''\<newline>Subject: attach observer to the subject'',
                       ''\<newline>Subject: I'm doing something important.'',
                       ''Subject: My state has just changed to: '' @ str (PyInt 3),
                       ''\<newline>Subject: Notifying observers...''],
            updates := [(Faulty 1, 0, PyInt 3)]\<rparr>)
   \<and> do_some_business_logic probe_update 0 3
       (snd (attach 0 (Talker 2) (snd (attach 0 (Setter 1) init_world))))
     = Some (Inr (),
         init_world
           \<lparr>observers := [Setter 1, Talker 2],
            inst_state := (inst_state init_world)(0 := Some 42),
            stdout := [''\<newline>Subject: attach observer to the subject'',
                       ''\<newline>Subject: attach observer to the subject'',
                       ''\<newline>Subject: I'm doing something important.'',
                       ''Subject: My state has just changed to: '' @ str (PyInt 3),
                       ''\<newline>Subject: Notifying observers...'',
                       ''Talker: updated''],
            updates := [(Setter 1, 0, PyInt 3), (Talker 2, 0, PyInt 42)]\<rparr>)"
  by (simp add: do_some_business_logic_def randrange_0_10 notify_def notify_loop.simps
      attach_def detach_def print_def set_state_def log_update_def get_state_def init_world_def
      Let_def)

text \<open>
  C1, amended. Let the \<open>update\<close> of every attached observer, whenever the subject's state
  is set, return normally and leave the observer list and the subject's state as they
  are (both concrete classes of the module do). Then, for every subject, every list of
  attached observers and every draw, \<open>do_some_business_logic\<close> returns normally and:
  \<^item> \<open>state\<close> has been assigned the integer \<open>r\<close> that \<open>randrange(0, 10)\<close> returned for the
    draw, with \<open>0 \<le> r < 10\<close>;
  \<^item> the state it leaves is the one reached by printing the two lines of the business
    logic and the line of \<open>notify\<close> and then making, from there, the call \<open>update\<close> for
    each entry of the observer list, one call per entry, in list order;
  \<^item> every one of these calls starts in a state in which the subject's \<open>state\<close> is \<open>r\<close>;
  \<^item> the observer list is unchanged;
  \<^item> the choice is uniform: for every \<open>n\<close> and every \<open>s\<close> with \<open>0 \<le> s < 10\<close>, exactly \<open>n\<close> of
    the \<open>10 n\<close> draws below \<open>10 n\<close> leave \<open>state = s\<close>.
\<close>

theorem do_some_business_logic_notifies:
  fixes upd :: "'o \<Rightarrow> subject \<Rightarrow> 'o world \<Rightarrow> 'o outcome" and w :: "'o world"
  assumes "\<And>p v. p \<in> set (observers w) \<Longrightarrow> get_state self v \<noteq> PyNone \<Longrightarrow>
                fst (upd p self v) = Inr ()
                \<and> observers (snd (upd p self v)) = observers v
                \<and> get_state self (snd (upd p self v)) = get_state self v"
  shows "(\<exists>r. randrange 0 10 draw = Inr r \<and> 0 \<le> r \<and> r < 10
           \<and> do_some_business_logic upd self draw w
               = Some (Inr (),
                   foldl (\<lambda>v p. snd (upd p self (log_update p self v)))
                     (print ''\<newline>Subject: Notifying observers...''
                       (print (''Subject: My state has just changed to: '' @ str (PyInt r))
                         (set_state self r
                           (print ''\<newline>Subject: I'm doing something important.'' w))))
                     (observers w))
           \<and> observers (foldl (\<lambda>v p. snd (upd p self (log_update p self v)))
                     (print ''\<newline>Subject: Notifying observers...''
                       (print (''Subject: My state has just changed to: '' @ str (PyInt r))
                         (set_state self r
                           (print ''\<newline>Subject: I'm doing something important.'' w))))
                     (observers w)) = observers w
           \<and> (\<forall>k. get_state self (foldl (\<lambda>v p. snd (upd p self (log_update p self v)))
                     (print ''\<newline>Subject: Notifying observers...''
                       (print (''Subject: My state has just changed to: '' @ str (PyInt r))
                         (set_state self r
                           (print ''\<newline>Subject: I'm doing something important.'' w))))
                     (take k (observers w))) = PyInt r))
         \<and> (\<forall>n s. 0 \<le> s \<and> s < 10 \<longrightarrow>
               card {d. d < 10 * n
                      \<and> (\<exists>v. do_some_business_logic upd self d w = Some (Inr (), v)
                              \<and> get_state self v = PyInt s)} = n)"
proof (rule conjI)
  let ?r = "int (draw mod 10)"
  have H: "\<forall>p \<in> set (observers w). \<forall>v. get_state self v \<noteq> PyNone \<longrightarrow>
                fst (upd p self v) = Inr ()
                \<and> observers (snd (upd p self v)) = observers v
                \<and> get_state self (snd (upd p self v)) = get_state self v"
    using assms by blast
  have r1: "randrange 0 10 draw = Inr ?r" and r2: "0 \<le> ?r" and r3: "?r < 10"
    by (simp_all add: randrange_0_10)
  note B = business_logic_well_behaved [where upd = upd and self = self and w = w and draw = draw, OF H]
  from B have a: "do_some_business_logic upd self draw w
               = Some (Inr (),
                   foldl (\<lambda>v p. snd (upd p self (log_update p self v)))
                     (print ''\<newline>Subject: Notifying observers...''
                       (print (''Subject: My state has just changed to: '' @ str (PyInt ?r))
                         (set_state self ?r
                           (print ''\<newline>Subject: I'm doing something important.'' w))))
                     (observers w))"
    by (rule conjunct1)
  from B have b: "observers (foldl (\<lambda>v p. snd (upd p self (log_update p self v)))
                     (print ''\<newline>Subject: Notifying observers...''
                       (print (''Subject: My state has just changed to: '' @ str (PyInt ?r))
                         (set_state self ?r
                           (print ''\<newline>Subject: I'm doing something important.'' w))))
                     (observers w)) = observers w"
    by (rule conjunct1 [OF conjunct2])
  from B have c: "\<forall>k. get_state self (foldl (\<lambda>v p. snd (upd p self (log_update p self v)))
                     (print ''\<newline>Subject: Notifying observers...''
                       (print (''Subject: My state has just changed to: '' @ str (PyInt ?r))
                         (set_state self ?r
                           (print ''\<newline>Subject: I'm doing something important.'' w))))
                     (take k (observers w))) = PyInt ?r"
    by (rule conjunct2 [OF conjunct2])
  show "\<exists>r. randrange 0 10 draw = Inr r \<and> 0 \<le> r \<and> r < 10
           \<and> do_some_business_logic upd self draw w
               = Some (Inr (),
                   foldl (\<lambda>v p. snd (upd p self (log_update p self v)))
                     (print ''\<newline>Subject: Notifying observers...''
                       (print (''Subject: My state has just changed to: '' @ str (PyInt r))
                         (set_state self r
                           (print ''\<newline>Subject: I'm doing something important.'' w))))
                     (observers w))
           \<and> observers (foldl (\<lambda>v p. snd (upd p self (log_update p self v)))
                     (print ''\<newline>Subject: Notifying observers...''
                       (print (''Subject: My state has just changed to: '' @ str (PyInt r))
                         (set_state self r
                           (print ''\<newline>Subject: I'm doing something important.'' w))))
                     (observers w)) = observers w
           \<and> (\<forall>k. get_state self (foldl (\<lambda>v p. snd (upd p self (log_update p self v)))
                     (print ''\<newline>Subject: Notifying observers...''
                       (print (''Subject: My state has just changed to: '' @ str (PyInt r))
                         (set_state self r
                           (print ''\<newline>Subject: I'm doing something important.'' w))))
                     (take k (observers w))) = PyInt r)"
    by (rule exI [of _ ?r]) (intro conjI r1 r2 r3 a b c)
next
  have H: "\<forall>p \<in> set (observers w). \<forall>v. get_state self v \<noteq> PyNone \<longrightarrow>
                fst (upd p self v) = Inr ()
                \<and> observers (snd (upd p self v)) = observers v
                \<and> get_state self (snd (upd p self v)) = get_state self v"
    using assms by blast
  have each: "\<And>d s. (\<exists>v. do_some_business_logic upd self d w = Some (Inr (), v)
                              \<and> get_state self v = PyInt s) = (randrange 0 10 d = Inr s)"
  proof -
    fix d s
    from business_logic_well_behaved [where upd = upd and self = self and w = w and draw = d, OF H]
    obtain v0 where v0: "do_some_business_logic upd self d w = Some (Inr (), v0)"
      and k: "\<forall>k. get_state self (foldl (\<lambda>v p. snd (upd p self (log_update p self v)))
                 (print ''\<newline>Subject: Notifying observers...''
                   (print (''Subject: My state has just changed to: '' @ str (PyInt (int (d mod 10))))
                     (set_state self (int (d mod 10))
                       (print ''\<newline>Subject: I'm doing something important.'' w))))
                 (take k (observers w))) = PyInt (int (d mod 10))"
      and v0': "v0 = foldl (\<lambda>v p. snd (upd p self (log_update p self v)))
                 (print ''\<newline>Subject: Notifying observers...''
                   (print (''Subject: My state has just changed to: '' @ str (PyInt (int (d mod 10))))
                     (set_state self (int (d mod 10))
                       (print ''\<newline>Subject: I'm doing something important.'' w))))
                 (observers w)"
      by blast
    from k [rule_format, of "length (observers w)"] v0'
    have "get_state self v0 = PyInt (int (d mod 10))" by simp
    with v0 show "(\<exists>v. do_some_business_logic upd self d w = Some (Inr (), v)
                              \<and> get_state self v = PyInt s) = (randrange 0 10 d = Inr s)"
      by (auto simp: randrange_0_10)
  qed
  show "\<forall>n s. 0 \<le> s \<and> s < 10 \<longrightarrow>
               card {d. d < 10 * n
                      \<and> (\<exists>v. do_some_business_logic upd self d w = Some (Inr (), v)
                              \<and> get_state self v = PyInt s)} = n"
    unfolding each by (simp add: randrange_uniform)
qed

text \<open>
  An instance with the two concrete classes: observer A, then observer B attached, and the
  draw 3. Both are called, A reacts and B does not; and of the 20 draws below 20, two set
  the state to 7.
\<close>

theorem do_some_business_logic_notifies_witness:
  "do_some_business_logic update 0 3
     (snd (attach 0 (ConcreteObserverB 2) (snd (attach 0 (ConcreteObserverA 1) init_world))))
     = Some (Inr (),
         init_world
           \<lparr>observers := [ConcreteObserverA 1, ConcreteObserverB 2],
            inst_state := (inst_state init_world)(0 := Some 3),
            stdout := [''\<newline>Subject: attach observer to the subject'',
                       ''\<newline>Subject: attach observer to the subject'',
                       ''\<newline>Subject: I'm doing something important.'',
                       ''Subject: My state has just changed to: '' @ str (PyInt 3),
                       ''\<newline>Subject: Notifying observers...'',
                       ''\<newline>ConcreteObserverA: react to the event''],
            updates := [(ConcreteObserverA 1, 0, PyInt 3), (ConcreteObserverB 2, 0, PyInt 3)]\<rparr>)
   \<and> card {d. d < 10 * 2
            \<and> (\<exists>v. do_some_business_logic update 0 d
                      (snd (attach 0 (ConcreteObserverB 2)
                         (snd (attach 0 (ConcreteObserverA 1) init_world))))
                    = Some (Inr (), v)
                  \<and> get_state 0 v = PyInt 7)} = 2"
proof -
  let ?W0 = "snd (attach 0 (ConcreteObserverB 2) (snd (attach 0 (ConcreteObserverA 1) init_world)))"
  have P: "\<And>p v. p \<in> set (observers ?W0) \<Longrightarrow> get_state 0 v \<noteq> PyNone \<Longrightarrow>
             fst (update p 0 v) = Inr ()
             \<and> observers (snd (update p 0 v)) = observers v
             \<and> get_state 0 (snd (update p 0 v)) = get_state 0 v"
    by (rule update_well_behaved)
  note T = do_some_business_logic_notifies [where upd = update and self = 0 and w = ?W0 and draw = 3, OF P]
  from T obtain r where r: "randrange 0 10 3 = Inr r"
    and run: "do_some_business_logic update 0 3 ?W0
               = Some (Inr (),
                   foldl (\<lambda>v p. snd (update p 0 (log_update p 0 v)))
                     (print ''\<newline>Subject: Notifying observers...''
                       (print (''Subject: My state has just changed to: '' @ str (PyInt r))
                         (set_state 0 r
                           (print ''\<newline>Subject: I'm doing something important.'' ?W0))))
                     (observers ?W0))"
    by blast
  from r have r3: "r = 3" by (simp add: randrange_0_10)
  have a: "do_some_business_logic update 0 3 ?W0
     = Some (Inr (),
         init_world
           \<lparr>observers := [ConcreteObserverA 1, ConcreteObserverB 2],
            inst_state := (inst_state init_world)(0 := Some 3),
            stdout := [''\<newline>Subject: attach observer to the subject'',
                       ''\<newline>Subject: attach observer to the subject'',
                       ''\<newline>Subject: I'm doing something important.'',
                       ''Subject: My state has just changed to: '' @ str (PyInt 3),
                       ''\<newline>Subject: Notifying observers...'',
                       ''\<newline>ConcreteObserverA: react to the event''],
            updates := [(ConcreteObserverA 1, 0, PyInt 3), (ConcreteObserverB 2, 0, PyInt 3)]\<rparr>)"
    unfolding run r3
    by (simp add: attach_def print_def set_state_def log_update_def get_state_def init_world_def
        py_lt_def py_gt_def Let_def)
  from T have "0 \<le> (7::int) \<and> (7::int) < 10 \<longrightarrow>
      card {d. d < 10 * 2
            \<and> (\<exists>v. do_some_business_logic update 0 d ?W0 = Some (Inr (), v)
                  \<and> get_state 0 v = PyInt 7)} = 2"
    by blast
  then have b: "card {d. d < 10 * 2
            \<and> (\<exists>v. do_some_business_logic update 0 d ?W0 = Some (Inr (), v)
                  \<and> get_state 0 v = PyInt 7)} = 2"
    by simp
  from a b show ?thesis by (rule conjI)
qed

subsection \<open>The thresholds of the two observers\<close>

text \<open>
  C2. For every integer \<open>s\<close>, with the subject's \<open>state\<close> equal to \<open>s\<close>:
  \<open>ConcreteObserverA.update\<close> returns normally and prints its reaction if \<open>s < 8\<close> and
  changes nothing otherwise, so it reacts iff \<open>s < 8\<close>; \<open>ConcreteObserverB.update\<close> does
  the same with \<open>s > 4\<close>. With \<open>s = 3\<close> only A reacts, with \<open>s = 9\<close> only B.
\<close>

theorem update_reacts_iff:
  "update (ConcreteObserverA k) self (set_state self s w)
     = (Inr (), if s < 8 then print ''\<newline>ConcreteObserverA: react to the event'' (set_state self s w)
                else set_state self s w)
   \<and> update (ConcreteObserverB k) self (set_state self s w)
     = (Inr (), if s > 4 then print ''\<newline>ConcreteObserverB: react to the event'' (set_state self s w)
                else set_state self s w)
   \<and> (stdout (snd (update (ConcreteObserverA k) self (set_state self s w)))
        \<noteq> stdout (set_state self s w)) = (s < 8)
   \<and> (stdout (snd (update (ConcreteObserverB k) self (set_state self s w)))
        \<noteq> stdout (set_state self s w)) = (s > 4)
   \<and> snd (update (ConcreteObserverA k) self (set_state self 3 w))
       = print ''\<newline>ConcreteObserverA: react to the event'' (set_state self 3 w)
   \<and> snd (update (ConcreteObserverB k) self (set_state self 3 w)) = set_state self 3 w
   \<and> snd (update (ConcreteObserverA k) self (set_state self 9 w)) = set_state self 9 w
   \<and> snd (update (ConcreteObserverB k) self (set_state self 9 w))
       = print ''\<newline>ConcreteObserverB: react to the event'' (set_state self 9 w)"
  by (simp add: py_lt_def py_gt_def print_def)

subsection \<open>Detaching an observer that is not registered\<close>

text \<open>
  C3. If \<open>ob\<close> is not in the observer list, \<open>detach\<close> of \<open>ob\<close> ends with the \<open>ValueError\<close>
  of \<open>list.remove\<close>, as raised; the state it leaves differs from the one before only by
  the line printed at the start of the call, so the observer list is the same list.
\<close>

theorem detach_not_registered:
  "ob \<notin> set (observers w) \<Longrightarrow>
     detach self ob w = (Inl ValueError, print ''\<newline>Subject: detach observer to the subject'' w)
     \<and> observers (snd (detach self ob w)) = observers w"
  by (simp add: detach_def print_def list_remove_absent)

theorem detach_not_registered_witness:
  "ConcreteObserverB 2 \<notin> set (observers (snd (attach 0 (ConcreteObserverA 1) init_world)))
   \<and> detach 0 (ConcreteObserverB 2) (snd (attach 0 (ConcreteObserverA 1) init_world))
       = (Inl ValueError,
          print ''\<newline>Subject: detach observer to the subject''
            (snd (attach 0 (ConcreteObserverA 1) init_world)))
   \<and> observers (snd (detach 0 (ConcreteObserverB 2) (snd (attach 0 (ConcreteObserverA 1) init_world))))
       = [ConcreteObserverA 1]"
proof -
  let ?w = "snd (attach 0 (ConcreteObserverA 1) (init_world :: observer world))"
  have o: "observers ?w = [ConcreteObserverA 1]"
    by (simp add: attach_def print_def init_world_def Let_def)
  have h: "ConcreteObserverB 2 \<notin> set (observers ?w)"
    unfolding o by simp
  have c: "detach 0 (ConcreteObserverB 2) ?w
             = (Inl ValueError, print ''\<newline>Subject: detach observer to the subject'' ?w)
           \<and> observers (snd (detach 0 (ConcreteObserverB 2) ?w)) = observers ?w"
    using h by (rule detach_not_registered)
  from c have c1: "detach 0 (ConcreteObserverB 2) ?w
             = (Inl ValueError, print ''\<newline>Subject: detach observer to the subject'' ?w)"
    and c2: "observers (snd (detach 0 (ConcreteObserverB 2) ?w)) = [ConcreteObserverA 1]"
    unfolding o by blast+
  from h c1 c2 show ?thesis by (intro conjI)
qed

subsection \<open>One observer list for all subjects\<close>

text \<open>
  C4. The claim is that every subject has an observer list of its own, so that attaching
  to one subject does not change whom another subject notifies. The code has one list, the
  class attribute, for all instances: starting from the freshly loaded module, an observer
  attached to subject 1 is in the list that subject 2 iterates, and
  \<open>do_some_business_logic\<close> on subject 2 calls that observer's \<open>update\<close>.
\<close>

theorem shared_observers_between_instances:
  "observers (snd (attach 1 (ConcreteObserverA 0) (init_world :: observer world)))
     = [ConcreteObserverA 0]
   \<and> (\<exists>w'. do_some_business_logic update 2 3 (snd (attach 1 (ConcreteObserverA 0) init_world))
              = Some (Inr (), w')
          \<and> updates w' = [(ConcreteObserverA 0, 2, PyInt 3)])"
proof -
  let ?w1 = "snd (attach 1 (ConcreteObserverA 0) (init_world :: observer world))"
  have o: "observers ?w1 = [ConcreteObserverA 0]"
    by (simp add: attach_def print_def init_world_def Let_def)
  have u: "updates ?w1 = []"
    by (simp add: attach_def print_def init_world_def Let_def)
  from business_logic_effect [of 2 3 ?w1] obtain w' where w':
    "do_some_business_logic update 2 3 ?w1 = Some (Inr (), w')"
    "updates w' = updates ?w1 @ map (\<lambda>ob. (ob, 2, PyInt (int (3 mod 10)))) (observers ?w1)"
    by blast
  from w'(2) have "updates w' = [(ConcreteObserverA 0, 2, PyInt 3)]"
    unfolding o u by simp
  with w'(1) o show ?thesis by blast
qed

subsection \<open>The length of the list counts the calls\<close>

text \<open>
  C5. For every finite sequence of \<open>attach\<close> and \<open>detach\<close> calls, made from any state: all
  calls return or raise (the sequence has an outcome for each call), and the length of the
  observer list afterwards, plus the number of \<open>detach\<close> calls that succeeded, is the
  length before plus the number of \<open>attach\<close> calls. From the freshly loaded module, where
  the list is empty, the length afterwards is the number of \<open>attach\<close> calls minus the
  number of successful \<open>detach\<close> calls.
\<close>

theorem observers_length_counts_calls:
  "list_all (\<lambda>c. is_attach c \<or> is_detach c) cs \<Longrightarrow>
     (\<exists>rs w'. run upd cs w = Some (rs, w') \<and> length rs = length cs
        \<and> length (observers w') + successful_detach_calls cs rs
            = length (observers w) + attach_calls cs)
   \<and> (\<exists>rs w'. run upd cs init_world = Some (rs, w') \<and> length rs = length cs
        \<and> successful_detach_calls cs rs \<le> attach_calls cs
        \<and> length (observers w') = attach_calls cs - successful_detach_calls cs rs)"
proof -
  assume h: "list_all (\<lambda>c. is_attach c \<or> is_detach c) cs"
  from run_registration [OF h, of upd init_world] obtain rs w' where r:
    "run upd cs init_world = Some (rs, w')" "length rs = length cs"
    "length (observers w') + successful_detach_calls cs rs
       = length (observers (init_world :: 'a world)) + attach_calls cs" by blast
  from r(3) have "successful_detach_calls cs rs \<le> attach_calls cs
      \<and> length (observers w') = attach_calls cs - successful_detach_calls cs rs"
    by (simp add: init_world_def)
  with r(1,2) have "\<exists>rs w'. run upd cs init_world = Some (rs, w') \<and> length rs = length cs
        \<and> successful_detach_calls cs rs \<le> attach_calls cs
        \<and> length (observers w') = attach_calls cs - successful_detach_calls cs rs"
    by blast
  with run_registration [OF h, of upd w] show ?thesis by blast
qed

theorem observers_length_counts_calls_witness:
  "list_all (\<lambda>c. is_attach c \<or> is_detach c)
     [Attach 0 (ConcreteObserverA 1), Detach 0 (ConcreteObserverB 2),
      Attach 0 (ConcreteObserverB 2), Detach 0 (ConcreteObserverA 1)]
   \<and> (\<exists>rs w'. run update
                 [Attach 0 (ConcreteObserverA 1), Detach 0 (ConcreteObserverB 2),
                  Attach 0 (ConcreteObserverB 2), Detach 0 (ConcreteObserverA 1)] init_world
               = Some (rs, w')
          \<and> rs = [Inr (), Inl ValueError, Inr (), Inr ()]
          \<and> observers w' = [ConcreteObserverB 2]
          \<and> successful_detach_calls
               [Attach 0 (ConcreteObserverA 1), Detach 0 (ConcreteObserverB 2),
                Attach 0 (ConcreteObserverB 2), Detach 0 (ConcreteObserverA 1)] rs = 1
          \<and> length (observers w')
               = attach_calls
                   [Attach 0 (ConcreteObserverA 1), Detach 0 (ConcreteObserverB 2),
                    Attach 0 (ConcreteObserverB 2), Detach 0 (ConcreteObserverA 1)]
                 - successful_detach_calls
                     [Attach 0 (ConcreteObserverA 1), Detach 0 (ConcreteObserverB 2),
                      Attach 0 (ConcreteObserverB 2), Detach 0 (ConcreteObserverA 1)] rs)"
proof -
  let ?cs = "[Attach 0 (ConcreteObserverA 1), Detach 0 (ConcreteObserverB 2),
              Attach 0 (ConcreteObserverB 2), Detach 0 (ConcreteObserverA 1)]"
  have h: "list_all (\<lambda>c. is_attach c \<or> is_detach c) ?cs" by simp
  from observers_length_counts_calls [OF h, of update init_world] obtain rs w' where r:
    "run update ?cs init_world = Some (rs, w')"
    "length (observers w') = attach_calls ?cs - successful_detach_calls ?cs rs"
    by blast
  from r(1) have rs: "rs = [Inr (), Inl ValueError, Inr (), Inr ()]"
    and o: "observers w' = [ConcreteObserverB 2]"
    by (auto simp: attach_def detach_def print_def init_world_def Let_def)
  have sd: "successful_detach_calls ?cs rs = 1"
    unfolding rs by (simp add: successful_detach_calls_def)
  from h r rs o sd show ?thesis by blast
qed

subsection \<open>Attach, then detach\<close>

text \<open>
  C6, as stated: \<open>attach\<close> of \<open>O\<close> followed by one \<open>detach\<close> of \<open>O\<close> gives back exactly the
  list \<open>L\<close> there was. It does not when \<open>O\<close> is already in \<open>L\<close>: after observer A and
  observer B have been attached, attaching A again and detaching it once removes the
  first entry of A, and the list is B, A instead of A, B.
\<close>

theorem attach_detach_round_trip_counterexample:
  "observers (snd (detach 0 (ConcreteObserverA 1) (snd (attach 0 (ConcreteObserverA 1)
      (snd (attach 0 (ConcreteObserverB 2) (snd (attach 0 (ConcreteObserverA 1) init_world))))))))
     = [ConcreteObserverB 2, ConcreteObserverA 1]
   \<and> observers (snd (attach 0 (ConcreteObserverB 2) (snd (attach 0 (ConcreteObserverA 1) init_world))))
     = [ConcreteObserverA 1, ConcreteObserverB 2]
   \<and> observers (snd (detach 0 (ConcreteObserverA 1) (snd (attach 0 (ConcreteObserverA 1)
      (snd (attach 0 (ConcreteObserverB 2) (snd (attach 0 (ConcreteObserverA 1) init_world))))))))
     \<noteq> observers (snd (attach 0 (ConcreteObserverB 2) (snd (attach 0 (ConcreteObserverA 1) init_world))))"
  by (simp add: attach_def detach_def print_def init_world_def Let_def)

text \<open>
  C6, amended. For every observer list \<open>L\<close> and every observer \<open>O\<close>, \<open>attach\<close> of \<open>O\<close>
  followed by one \<open>detach\<close> of \<open>O\<close> succeeds and leaves a list with the members of \<open>L\<close>,
  each as many times as in \<open>L\<close>. If \<open>O\<close> is not in \<open>L\<close> the list is exactly \<open>L\<close> again; if
  \<open>O\<close> is in \<open>L\<close>, its first entry is the one removed and the new entry stays at the end.
\<close>

theorem attach_detach_round_trip:
  "\<exists>w'. detach self ob (snd (attach self ob w)) = (Inr (), w')
      \<and> mset (observers w') = mset (observers w)
      \<and> (ob \<notin> set (observers w) \<longrightarrow> observers w' = observers w)
      \<and> (ob \<in> set (observers w) \<longrightarrow> observers w' = remove1 ob (observers w) @ [ob])"
proof -
  let ?w1 = "snd (attach self ob w)"
  have mem: "ob \<in> set (observers w @ [ob])" by simp
  have rm: "list_remove ob (observers w @ [ob]) = Some (remove1 ob (observers w @ [ob]))"
    using list_remove_present [OF mem] .
  let ?w' = "(print ''\<newline>Subject: detach observer to the subject'' ?w1)
               \<lparr>observers := remove1 ob (observers w @ [ob])\<rparr>"
  have d: "detach self ob ?w1 = (Inr (), ?w')"
    using rm by (simp add: detach_def attach_def print_def Let_def)
  have o: "observers ?w' = remove1 ob (observers w @ [ob])" by simp
  have "mset (observers ?w') = mset (observers w)"
    unfolding o by simp
  moreover have "ob \<notin> set (observers w) \<longrightarrow> observers ?w' = observers w"
    unfolding o by (simp add: remove1_append)
  moreover have "ob \<in> set (observers w) \<longrightarrow> observers ?w' = remove1 ob (observers w) @ [ob]"
    unfolding o by (simp add: remove1_append)
  ultimately show ?thesis using d by blast
qed

theorem attach_detach_round_trip_witness:
  "ConcreteObserverA 1 \<notin> set (observers (init_world :: observer world))
   \<and> observers (snd (detach 0 (ConcreteObserverA 1) (snd (attach 0 (ConcreteObserverA 1) init_world))))
       = observers (init_world :: observer world)
   \<and> ConcreteObserverA 1
        \<in> set (observers (init_world\<lparr>observers := [ConcreteObserverA 1, ConcreteObserverB 2]\<rparr>))
   \<and> observers (snd (detach 0 (ConcreteObserverA 1) (snd (attach 0 (ConcreteObserverA 1)
         (init_world\<lparr>observers := [ConcreteObserverA 1, ConcreteObserverB 2]\<rparr>)))))
       = [ConcreteObserverB 2, ConcreteObserverA 1]"
proof -
  let ?w0 = "init_world :: observer world"
  let ?w1 = "?w0\<lparr>observers := [ConcreteObserverA 1, ConcreteObserverB 2]\<rparr>"
  have h0: "ConcreteObserverA 1 \<notin> set (observers ?w0)" by (simp add: init_world_def)
  have h1: "ConcreteObserverA 1 \<in> set (observers ?w1)" by simp
  from attach_detach_round_trip [of 0 "ConcreteObserverA 1" ?w0] h0
  have a: "observers (snd (detach 0 (ConcreteObserverA 1) (snd (attach 0 (ConcreteObserverA 1) ?w0))))
      = observers ?w0" by auto
  from attach_detach_round_trip [of 0 "ConcreteObserverA 1" ?w1] h1
  have b: "observers (snd (detach 0 (ConcreteObserverA 1) (snd (attach 0 (ConcreteObserverA 1) ?w1))))
      = remove1 (ConcreteObserverA 1) (observers ?w1) @ [ConcreteObserverA 1]" by auto
  from h0 a h1 b show ?thesis by simp
qed

subsection \<open>The same observer attached twice\<close>




subsection \<open>An update that raises\<close>

text \<open>
  C8. Whatever the \<open>update\<close> methods of the observers are: if the loop of \<open>notify\<close> arrives
  at entry \<open>k\<close> of the list, in the state \<open>v\<close>, and the \<open>update\<close> it calls there raises \<open>e\<close>,
  leaving the state \<open>w'\<close>, then \<open>notify\<close> ends with that same exception \<open>e\<close> and in
  that same state \<open>w'\<close>: no later entry is visited, nothing more is printed or changed,
  and the exception reaches the caller of \<open>notify\<close> as it was raised.
\<close>

theorem notify_stops_at_exception:
  "loop_state upd k self (print ''\<newline>Subject: Notifying observers...'' w) = Some v \<Longrightarrow>
   k < length (observers v) \<Longrightarrow>
   upd (observers v ! k) self (log_update (observers v ! k) self v) = (Inl e, w') \<Longrightarrow>
     notify upd self w = Some (Inl e, w')"
proof -
  assume r: "loop_state upd k self (print ''\<newline>Subject: Notifying observers...'' w) = Some v"
    and k: "k < length (observers v)"
    and u: "upd (observers v ! k) self (log_update (observers v ! k) self v) = (Inl e, w')"
  have "notify_loop upd k self v = Some (Inl e, w')"
    by (subst notify_loop.simps) (simp add: k u)
  with loop_state_notify_loop [OF r] show ?thesis by (simp add: notify_def)
qed

text \<open>
  An instance: a \<open>Talker\<close>, a \<open>Faulty\<close> and another \<open>Talker\<close>. The loop arrives at entry 1
  after the first \<open>Talker\<close> has printed its line; the \<open>Faulty\<close> raises, and \<open>notify\<close> ends
  with its exception: the second \<open>Talker\<close> has not printed.
\<close>

theorem notify_stops_at_exception_witness:
  "loop_state probe_update 1 0
     (print ''\<newline>Subject: Notifying observers...''
        (init_world\<lparr>observers := [Talker 1, Faulty 2, Talker 3]\<rparr>))
     = Some (init_world
           \<lparr>observers := [Talker 1, Faulty 2, Talker 3],
            stdout := [''\<newline>Subject: Notifying observers...'', ''Talker: updated''],
            updates := [(Talker 1, 0, PyNone)]\<rparr>)
   \<and> notify probe_update 0 (init_world\<lparr>observers := [Talker 1, Faulty 2, Talker 3]\<rparr>)
     = Some (Inl (OtherError ''Faulty''),
         init_world
           \<lparr>observers := [Talker 1, Faulty 2, Talker 3],
            stdout := [''\<newline>Subject: Notifying observers...'', ''Talker: updated''],
            updates := [(Talker 1, 0, PyNone), (Faulty 2, 0, PyNone)]\<rparr>)"
proof -
  let ?w = "init_world\<lparr>observers := [Talker 1, Faulty 2, Talker 3]\<rparr>"
  let ?v = "init_world
           \<lparr>observers := [Talker 1, Faulty 2, Talker 3],
            stdout := [''\<newline>Subject: Notifying observers...'', ''Talker: updated''],
            updates := [(Talker 1, 0, PyNone)]\<rparr>"
  let ?w' = "init_world
           \<lparr>observers := [Talker 1, Faulty 2, Talker 3],
            stdout := [''\<newline>Subject: Notifying observers...'', ''Talker: updated''],
            updates := [(Talker 1, 0, PyNone), (Faulty 2, 0, PyNone)]\<rparr>"
  have r: "loop_state probe_update 1 0 (print ''\<newline>Subject: Notifying observers...'' ?w) = Some ?v"
    by (simp add: print_def log_update_def get_state_def init_world_def cls_state_def)
  have k: "1 < length (observers ?v)" by simp
  have u: "probe_update (observers ?v ! 1) 0 (log_update (observers ?v ! 1) 0 ?v)
             = (Inl (OtherError ''Faulty''), ?w')"
    by (simp add: log_update_def get_state_def init_world_def cls_state_def)
  have "notify probe_update 0 ?w = Some (Inl (OtherError ''Faulty''), ?w')"
    using r k u by (rule notify_stops_at_exception)
  with r show ?thesis by (rule conjI)
qed

subsection \<open>Notifying nobody\<close>

text \<open>
  C9. \<open>notify\<close> on a subject whose observer list is empty returns without an exception,
  whatever the classes of observers that exist: it makes no \<open>update\<close> call (the history of
  calls is unchanged), and the only thing it does is print its announcement.
\<close>

theorem notify_no_observers:
  "observers w = [] \<Longrightarrow>
     notify upd self w = Some (Inr (), print ''\<newline>Subject: Notifying observers...'' w)
     \<and> updates (print ''\<newline>Subject: Notifying observers...'' w) = updates w"
  by (simp add: notify_def notify_loop.simps print_def)

theorem notify_no_observers_witness:
  "observers (init_world :: observer world) = []
   \<and> notify update 0 (init_world :: observer world)
       = Some (Inr (), print ''\<newline>Subject: Notifying observers...'' init_world)
   \<and> updates (print ''\<newline>Subject: Notifying observers...'' (init_world :: observer world))
       = updates (init_world :: observer world)"
proof -
  have h: "observers (init_world :: observer world) = []"
    by (simp add: init_world_def)
  show ?thesis
    using h notify_no_observers [OF h, of update 0] by simp
qed

subsection \<open>Notifying before the state has been set\<close>

text \<open>
  C10. Take any sequence of calls on any subjects, made from the freshly loaded module, in
  which \<open>do_some_business_logic\<close> is never called on the subject \<open>self\<close>. The sequence runs
  to its end, and afterwards the \<open>state\<close> of \<open>self\<close> is \<open>None\<close>; the \<open>update\<close> of either
  concrete class, given \<open>self\<close>, raises \<open>TypeError\<close> and does nothing else; and if the
  observer list is not empty, \<open>notify\<close> on \<open>self\<close> ends with that \<open>TypeError\<close>, raised by
  the first observer's \<open>update\<close>, the only call made.
\<close>

theorem notify_before_business_logic:
  "\<not> list_ex (is_business_of self) cs \<Longrightarrow>
     \<exists>rs w. run update cs init_world = Some (rs, w)
       \<and> get_state self w = PyNone
       \<and> update (ConcreteObserverA k) self w = (Inl TypeError, w)
       \<and> update (ConcreteObserverB k) self w = (Inl TypeError, w)
       \<and> (observers w \<noteq> [] \<longrightarrow>
            notify update self w
              = Some (Inl TypeError,
                      log_update (hd (observers w)) self
                        (print ''\<newline>Subject: Notifying observers...'' w)))"
proof -
  assume h: "\<not> list_ex (is_business_of self) cs"
  from run_returns [OF h, of init_world] obtain rs w where
    r: "run update cs init_world = Some (rs, w)"
       "inst_state w self = inst_state (init_world :: observer world) self" by blast
  have s: "get_state self w = PyNone"
    using r(2) by (simp add: get_state_def init_world_def cls_state_def)
  from r(1) s update_unset [OF s] notify_unset [OF s] show ?thesis by blast
qed

theorem notify_before_business_logic_witness:
  "\<not> list_ex (is_business_of 0) [Attach 0 (ConcreteObserverA 1)]
   \<and> (\<exists>rs w. run update [Attach 0 (ConcreteObserverA 1)] init_world = Some (rs, w)
          \<and> get_state 0 w = PyNone
          \<and> observers w \<noteq> []
          \<and> notify update 0 w
              = Some (Inl TypeError,
                      log_update (hd (observers w)) 0
                        (print ''\<newline>Subject: Notifying observers...'' w)))"
proof -
  let ?cs = "[Attach 0 (ConcreteObserverA 1)]"
  have h: "\<not> list_ex (is_business_of 0) ?cs" by simp
  from notify_before_business_logic [OF h] obtain rs w where r:
    "run update ?cs init_world = Some (rs, w)" "get_state 0 w = PyNone"
    "observers w \<noteq> [] \<longrightarrow>
       notify update 0 w
         = Some (Inl TypeError,
                 log_update (hd (observers w)) 0 (print ''\<newline>Subject: Notifying observers...'' w))"
    by blast
  from r(1) have "observers w \<noteq> []"
    by (auto simp: attach_def print_def init_world_def Let_def)
  with h r show ?thesis by blast
qed

end
